theory Spec2Isabelle
  imports Complex_Main "HOL-Library.Multiset"
begin

section \<open>Idealised double arithmetic\<close>

text \<open>
  The program computes with \<^verbatim>\<open>double\<close> and \<^verbatim>\<open>std::complex<double>\<close>.
  A \<^verbatim>\<open>double\<close> is modelled as an exact real number or one of the IEEE 754 special
  values: finite results are not rounded and never overflow, and the special values
  arise and propagate as IEEE 754 prescribes (a division by zero gives an infinity or
  NaN, the square root of a negative number gives NaN, NaN is absorbing).  Zero carries
  no sign in the model: a zero divisor is read as \<open>+0\<close>.
\<close>

datatype double = Fin real | PInf | MInf | NaN

fun d_neg :: "double \<Rightarrow> double" where
  "d_neg (Fin a) = Fin (- a)"
| "d_neg PInf = MInf"
| "d_neg MInf = PInf"
| "d_neg NaN = NaN"

fun d_add :: "double \<Rightarrow> double \<Rightarrow> double" where
  "d_add (Fin a) (Fin b) = Fin (a + b)"
| "d_add NaN y = NaN"
| "d_add x NaN = NaN"
| "d_add PInf MInf = NaN"
| "d_add MInf PInf = NaN"
| "d_add PInf y = PInf"
| "d_add x PInf = PInf"
| "d_add MInf y = MInf"
| "d_add x MInf = MInf"

definition d_sub :: "double \<Rightarrow> double \<Rightarrow> double" where
  "d_sub x y = d_add x (d_neg y)"

text \<open>The infinity with the sign of a nonzero real; \<open>\<infinity> * 0\<close> is NaN.\<close>

definition signed_inf :: "real \<Rightarrow> double" where
  "signed_inf s = (if s = 0 then NaN else if 0 < s then PInf else MInf)"

fun d_mul :: "double \<Rightarrow> double \<Rightarrow> double" where
  "d_mul (Fin a) (Fin b) = Fin (a * b)"
| "d_mul NaN y = NaN"
| "d_mul x NaN = NaN"
| "d_mul (Fin a) PInf = signed_inf a"
| "d_mul (Fin a) MInf = signed_inf (- a)"
| "d_mul PInf (Fin b) = signed_inf b"
| "d_mul MInf (Fin b) = signed_inf (- b)"
| "d_mul PInf PInf = PInf"
| "d_mul PInf MInf = MInf"
| "d_mul MInf PInf = MInf"
| "d_mul MInf MInf = PInf"

fun d_div :: "double \<Rightarrow> double \<Rightarrow> double" where
  "d_div (Fin a) (Fin b) = (if b = 0 then signed_inf a else Fin (a / b))"
| "d_div NaN y = NaN"
| "d_div x NaN = NaN"
| "d_div (Fin a) PInf = Fin 0"
| "d_div (Fin a) MInf = Fin 0"
| "d_div PInf (Fin b) = (if b < 0 then MInf else PInf)"
| "d_div MInf (Fin b) = (if b < 0 then PInf else MInf)"
| "d_div PInf PInf = NaN"
| "d_div PInf MInf = NaN"
| "d_div MInf PInf = NaN"
| "d_div MInf MInf = NaN"

text \<open>\<^verbatim>\<open>std::sqrt\<close>: NaN on a negative argument.\<close>

fun d_sqrt :: "double \<Rightarrow> double" where
  "d_sqrt (Fin a) = (if a < 0 then NaN else Fin (sqrt a))"
| "d_sqrt PInf = PInf"
| "d_sqrt MInf = NaN"
| "d_sqrt NaN = NaN"

text \<open>\<^verbatim>\<open>hypot\<close>: an infinite argument wins over NaN, NaN over finite arguments.\<close>

fun d_hypot :: "double \<Rightarrow> double \<Rightarrow> double" where
  "d_hypot (Fin a) (Fin b) = Fin (sqrt (a * a + b * b))"
| "d_hypot PInf y = PInf"
| "d_hypot MInf y = PInf"
| "d_hypot x PInf = PInf"
| "d_hypot x MInf = PInf"
| "d_hypot NaN y = NaN"
| "d_hypot x NaN = NaN"

text \<open>\<^verbatim>\<open>atan2 (y, x)\<close> on real arguments, the angle in \<open>(-\<pi>, \<pi>]\<close>.\<close>

definition atan2_real :: "real \<Rightarrow> real \<Rightarrow> real" where
  "atan2_real y x =
     (if 0 < x then arctan (y / x)
      else if x < 0 then (if 0 \<le> y then arctan (y / x) + pi else arctan (y / x) - pi)
      else if 0 < y then pi / 2
      else if y < 0 then - (pi / 2)
      else 0)"

fun d_atan2 :: "double \<Rightarrow> double \<Rightarrow> double" where
  "d_atan2 (Fin y) (Fin x) = Fin (atan2_real y x)"
| "d_atan2 NaN x = NaN"
| "d_atan2 y NaN = NaN"
| "d_atan2 PInf (Fin x) = Fin (pi / 2)"
| "d_atan2 MInf (Fin x) = Fin (- (pi / 2))"
| "d_atan2 (Fin y) PInf = Fin 0"
| "d_atan2 (Fin y) MInf = (if y < 0 then Fin (- pi) else Fin pi)"
| "d_atan2 PInf PInf = Fin (pi / 4)"
| "d_atan2 MInf PInf = Fin (- (pi / 4))"
| "d_atan2 PInf MInf = Fin (3 * pi / 4)"
| "d_atan2 MInf MInf = Fin (- (3 * pi / 4))"

subsection \<open>Complex doubles\<close>

text \<open>
  \<^verbatim>\<open>std::complex<double>\<close> is a pair of doubles (real part, imaginary part).
  Addition is componentwise.
\<close>

type_synonym complex_d = "double \<times> double"

definition c_of_double :: "double \<Rightarrow> complex_d" where
  "c_of_double x = (x, Fin 0)"

definition c_add :: "complex_d \<Rightarrow> complex_d \<Rightarrow> complex_d" where
  "c_add z w = (d_add (fst z) (fst w), d_add (snd z) (snd w))"

text \<open>
  Division is library code that the program does not define.  The C++ library hands
  \<^verbatim>\<open>operator/\<close> of \<^verbatim>\<open>std::complex<double>\<close> to the compiler's complex division, which
  follows C99 Annex G: the quotient \<open>(a + bi) / (c + di)\<close> is computed with the ratio of the
  smaller to the larger part of the divisor, and a result that came out as NaN in both
  parts is then recovered for a zero divisor (an infinity times the dividend), an infinite
  dividend over a finite divisor, and a finite dividend over an infinite divisor (zero).
  The model follows that routine step by step with the predicates it uses.  So
  \<open>1 / (0 + 0j) = \<infinity> + NaN j\<close>, \<open>1 / (0 - \<infinity>j) = 0\<close> and \<open>1 / (\<infinity> + NaN j) = 0\<close>; for
  a finite nonzero divisor the result is the exact quotient.  As zero carries no sign, the
  infinity for a zero divisor has the sign of the dividend.
\<close>

fun d_abs :: "double \<Rightarrow> double" where
  "d_abs (Fin a) = Fin \<bar>a\<bar>"
| "d_abs PInf = PInf"
| "d_abs MInf = PInf"
| "d_abs NaN = NaN"

text \<open>\<^verbatim>\<open>x < y\<close> on doubles: false when either side is NaN.\<close>

fun d_less :: "double \<Rightarrow> double \<Rightarrow> bool" where
  "d_less (Fin a) (Fin b) = (a < b)"
| "d_less NaN y = False"
| "d_less x NaN = False"
| "d_less x MInf = False"
| "d_less PInf y = False"
| "d_less MInf y = True"
| "d_less x PInf = True"

fun is_nan :: "double \<Rightarrow> bool" where
  "is_nan NaN = True"
| "is_nan x = False"

fun is_inf :: "double \<Rightarrow> bool" where
  "is_inf PInf = True"
| "is_inf MInf = True"
| "is_inf x = False"

fun is_finite :: "double \<Rightarrow> bool" where
  "is_finite (Fin a) = True"
| "is_finite x = False"

text \<open>\<^verbatim>\<open>COPYSIGN (isinf (x) ? 1 : 0, x)\<close>\<close>

fun inf_unit :: "double \<Rightarrow> double" where
  "inf_unit PInf = Fin 1"
| "inf_unit MInf = Fin (- 1)"
| "inf_unit x = Fin 0"

text \<open>The quotient before the recovery of infinities and zeros.\<close>

definition div_ratio :: "double \<Rightarrow> double \<Rightarrow> double \<Rightarrow> double \<Rightarrow> complex_d" where
  "div_ratio a b c d =
     (if d_less (d_abs c) (d_abs d) then
        (let ratio = d_div c d;
             denom = d_add (d_mul c ratio) d
         in (d_div (d_add (d_mul a ratio) b) denom, d_div (d_sub (d_mul b ratio) a) denom))
      else
        (let ratio = d_div d c;
             denom = d_add (d_mul d ratio) c
         in (d_div (d_add (d_mul b ratio) a) denom, d_div (d_sub b (d_mul a ratio)) denom)))"

definition divdc3 :: "double \<Rightarrow> double \<Rightarrow> double \<Rightarrow> double \<Rightarrow> complex_d" where
  "divdc3 a b c d =
     (let x = fst (div_ratio a b c d);
          y = snd (div_ratio a b c d)
      in if is_nan x \<and> is_nan y then
           (if c = Fin 0 \<and> d = Fin 0 \<and> \<not> (is_nan a \<and> is_nan b) then
              (d_mul PInf a, d_mul PInf b)
            else if (is_inf a \<or> is_inf b) \<and> is_finite c \<and> is_finite d then
              (d_mul PInf (d_add (d_mul (inf_unit a) c) (d_mul (inf_unit b) d)),
               d_mul PInf (d_sub (d_mul (inf_unit b) c) (d_mul (inf_unit a) d)))
            else if (is_inf c \<or> is_inf d) \<and> is_finite a \<and> is_finite b then
              (d_mul (Fin 0) (d_add (d_mul a (inf_unit c)) (d_mul b (inf_unit d))),
               d_mul (Fin 0) (d_sub (d_mul b (inf_unit c)) (d_mul a (inf_unit d))))
            else (x, y))
         else (x, y))"

definition c_div :: "complex_d \<Rightarrow> complex_d \<Rightarrow> complex_d" where
  "c_div z w = divdc3 (fst z) (snd z) (fst w) (snd w)"

definition c_abs :: "complex_d \<Rightarrow> double" where
  "c_abs z = d_hypot (fst z) (snd z)"

definition c_arg :: "complex_d \<Rightarrow> double" where
  "c_arg z = d_atan2 (snd z) (fst z)"

text \<open>An exact complex number as a complex double, and the exact sum of a list.\<close>

definition of_complex :: "complex \<Rightarrow> complex_d" where
  "of_complex z = (Fin (Re z), Fin (Im z))"

definition c_sum :: "complex_d list \<Rightarrow> complex_d" where
  "c_sum zs = foldr c_add zs (c_of_double (Fin 0))"

section \<open>Components\<close>

text \<open>\<^verbatim>\<open>const double pi = 3.14159265358979323846;\<close>\<close>

definition pi_d :: real where
  "pi_d = 314159265358979323846 / 100000000000000000000"

text \<open>
  The base class \<^verbatim>\<open>components\<close> holds \<^verbatim>\<open>frequency\<close> and \<^verbatim>\<open>impedance\<close>; each
  derived class adds its physical parameters.
\<close>

datatype derived =
    Resistor double
  | Capacitor double
  | Inductor double
  | Diode double double double
  | Transistor double double double double double

record components =
  frequency :: double
  impedance :: complex_d
  derived :: derived

text \<open>
  The constructors.  The base constructor sets \<^verbatim>\<open>frequency\<close> to 0 before the body of
  the derived constructor runs.
\<close>

definition resistor :: "double \<Rightarrow> components" where
  "resistor r = \<lparr>frequency = Fin 0, impedance = c_of_double r, derived = Resistor r\<rparr>"

definition capacitor :: "double \<Rightarrow> components" where
  "capacitor c =
     \<lparr>frequency = Fin 0,
      impedance = (Fin 0, d_div (Fin (- 1)) (d_mul (d_mul (d_mul (Fin 2) (Fin pi_d)) (Fin 0)) c)),
      derived = Capacitor c\<rparr>"

definition inductor :: "double \<Rightarrow> components" where
  "inductor l =
     \<lparr>frequency = Fin 0,
      impedance = (Fin 0, d_mul (d_mul (Fin 2) (Fin pi_d)) l),
      derived = Inductor l\<rparr>"

definition diode :: "double \<Rightarrow> double \<Rightarrow> double \<Rightarrow> components" where
  "diode c r is =
     \<lparr>frequency = Fin 0, impedance = (Fin 0, r), derived = Diode c r is\<rparr>"

definition transistor :: "double \<Rightarrow> double \<Rightarrow> double \<Rightarrow> double \<Rightarrow> double \<Rightarrow> components" where
  "transistor cc bc ec cev bev =
     \<lparr>frequency = Fin 0,
      impedance = (d_div cev cc, Fin 0),
      derived = Transistor cc bc ec cev bev\<rparr>"

text \<open>\<^verbatim>\<open>diode::set_frequency\<close>, with the source's local variables.\<close>

definition diode_impedance :: "double \<Rightarrow> double \<Rightarrow> double \<Rightarrow> double \<Rightarrow> complex_d" where
  "diode_impedance f capacitance resistance saturation_current =
     (let omega_c = d_div (Fin 1) (d_mul resistance capacitance);
          omega_s = d_div (d_mul saturation_current resistance) capacitance;
          j = d_sqrt (Fin (- 1));
          w = d_mul (d_mul (d_mul j (Fin 2)) (Fin pi_d)) f;
          denom = d_add (Fin 1) (d_mul (d_mul w capacitance) resistance)
      in (d_div resistance denom, d_div omega_s (d_mul (d_mul w capacitance) denom)))"

fun set_frequency :: "double \<Rightarrow> components \<Rightarrow> components" where
  "set_frequency f c =
     (case derived c of
        Resistor r \<Rightarrow> c\<lparr>frequency := f\<rparr>
      | Capacitor capacitance \<Rightarrow>
          c\<lparr>frequency := f,
            impedance :=
              (Fin 0, d_div (Fin (- 1)) (d_mul (d_mul (d_mul (Fin 2) (Fin pi_d)) f) capacitance))\<rparr>
      | Inductor inductance \<Rightarrow>
          c\<lparr>frequency := f,
            impedance := (Fin 0, d_mul (d_mul (d_mul (Fin 2) (Fin pi_d)) f) inductance)\<rparr>
      | Diode capacitance resistance saturation_current \<Rightarrow>
          c\<lparr>frequency := f,
            impedance := diode_impedance f capacitance resistance saturation_current\<rparr>
      | Transistor cc bc ec cev bev \<Rightarrow> c)"

fun get_frequency :: "components \<Rightarrow> double" where
  "get_frequency c =
     (case derived c of
        Transistor cc bc ec cev bev \<Rightarrow> Fin 0
      | _ \<Rightarrow> frequency c)"

definition get_impedance :: "components \<Rightarrow> complex_d" where
  "get_impedance c = impedance c"

definition get_impedance_magnitude :: "components \<Rightarrow> double" where
  "get_impedance_magnitude c = c_abs (impedance c)"

fun get_phase_difference :: "components \<Rightarrow> double" where
  "get_phase_difference c =
     (case derived c of
        Resistor r \<Rightarrow> c_arg (impedance c)
      | Capacitor capacitance \<Rightarrow> d_div (d_neg (Fin pi_d)) (Fin 2)
      | Inductor inductance \<Rightarrow> d_div (Fin pi_d) (Fin 2)
      | Diode capacitance resistance saturation_current \<Rightarrow> c_arg (impedance c)
      | Transistor cc bc ec cev bev \<Rightarrow> Fin 0)"

fun get_type :: "components \<Rightarrow> string" where
  "get_type c =
     (case derived c of
        Resistor r \<Rightarrow> ''Resistor''
      | Capacitor capacitance \<Rightarrow> ''Capacitor''
      | Inductor inductance \<Rightarrow> ''Inductor''
      | Diode capacitance resistance saturation_current \<Rightarrow> ''Diode''
      | Transistor cc bc ec cev bev \<Rightarrow> ''Transistor'')"

section \<open>Circuit\<close>

text \<open>
  A circuit holds pointers to components that its caller owns and may change between
  calls.  A pointer is an address, and the store maps every address to the component
  that lives there; every circuit operation that reads a component takes the store.
\<close>

type_synonym store = "nat \<Rightarrow> components"

record circuit =
  component_list :: "nat list"
  total_impedance :: complex_d
  circuit_frequency :: double

definition circuit_new :: circuit where
  "circuit_new =
     \<lparr>component_list = [], total_impedance = c_of_double (Fin 0), circuit_frequency = Fin 0\<rparr>"

definition update_impedance_series :: "store \<Rightarrow> circuit \<Rightarrow> circuit" where
  "update_impedance_series h c =
     c\<lparr>total_impedance :=
         foldl (\<lambda>total p. c_add total (get_impedance (h p)))
           (c_of_double (Fin 0)) (component_list c)\<rparr>"

definition update_impedance_parallel :: "store \<Rightarrow> circuit \<Rightarrow> circuit" where
  "update_impedance_parallel h c =
     c\<lparr>total_impedance :=
         c_div (c_of_double (Fin 1))
           (foldl (\<lambda>total p. c_add total (c_div (c_of_double (Fin 1)) (get_impedance (h p))))
              (c_of_double (Fin 0)) (component_list c))\<rparr>"

definition add_component_in_series :: "store \<Rightarrow> nat \<Rightarrow> circuit \<Rightarrow> circuit" where
  "add_component_in_series h component c =
     update_impedance_series h (c\<lparr>component_list := component_list c @ [component]\<rparr>)"


definition circuit_set_frequency :: "store \<Rightarrow> double \<Rightarrow> circuit \<Rightarrow> circuit" where
  "circuit_set_frequency h f c =
     update_impedance_parallel h (update_impedance_series h (c\<lparr>circuit_frequency := f\<rparr>))"

definition get_circuit_impedance :: "circuit \<Rightarrow> complex_d" where
  "get_circuit_impedance c = total_impedance c"

definition get_total_impedance_magntiude :: "circuit \<Rightarrow> double" where
  "get_total_impedance_magntiude c = c_abs (total_impedance c)"

definition circuit_get_phase_difference :: "circuit \<Rightarrow> double" where
  "circuit_get_phase_difference c = c_arg (total_impedance c)"

text \<open>A fresh circuit into which the caller registers the components at \<open>ps\<close> in turn.\<close>

definition series_of :: "store \<Rightarrow> nat list \<Rightarrow> circuit" where
  "series_of h ps = foldl (\<lambda>c p. add_component_in_series h p c) circuit_new ps"


subsection \<open>Example stores\<close>

text \<open>Every address holds a resistor of \<open>r\<close> Ohm.\<close>

definition resistors :: "real \<Rightarrow> store" where
  "resistors r p = resistor (Fin r)"

text \<open>
  A resistor of \<open>r\<close> Ohm at address 0 and, at every other address, an inductor of \<open>l\<close>
  Henry on which the caller has set the frequency \<open>f\<close>.
\<close>

definition resistor_inductor :: "real \<Rightarrow> real \<Rightarrow> real \<Rightarrow> store" where
  "resistor_inductor r l f p =
     (if p = 0 then resistor (Fin r) else set_frequency (Fin f) (inductor (Fin l)))"


section \<open>Arithmetic facts\<close>

lemma d_add_commute: "d_add x y = d_add y x"
  by (cases x; cases y; simp)

lemma d_add_assoc: "d_add (d_add x y) z = d_add x (d_add y z)"
  by (cases x; cases y; cases z; simp)

lemma c_add_commute: "c_add z w = c_add w z"
  by (simp add: c_add_def d_add_commute)

lemma c_add_assoc: "c_add (c_add u z) w = c_add u (c_add z w)"
  by (simp add: c_add_def d_add_assoc)

lemma d_add_zero_right: "d_add x (Fin 0) = x"
  by (cases x; simp)

lemma c_add_zero_right: "c_add z (c_of_double (Fin 0)) = z"
  by (simp add: c_add_def c_of_double_def d_add_zero_right)

lemma c_add_zero_left: "c_add (c_of_double (Fin 0)) z = z"
  by (simp add: c_add_commute [of "c_of_double (Fin 0)"] c_add_zero_right)

lemma c_sum_Nil: "c_sum [] = c_of_double (Fin 0)"
  by (simp add: c_sum_def)

lemma c_sum_Cons: "c_sum (z # zs) = c_add z (c_sum zs)"
  by (simp add: c_sum_def)

lemma c_sum_append: "c_sum (zs @ ws) = c_add (c_sum zs) (c_sum ws)"
  by (induction zs) (simp_all add: c_sum_Nil c_sum_Cons c_add_zero_left c_add_assoc)

lemma foldl_c_add: "foldl (\<lambda>total p. c_add total (g p)) a ps = c_add a (c_sum (map g ps))"
proof (induction ps arbitrary: a)
  case Nil
  show ?case by (simp add: c_sum_Nil c_add_zero_right)
next
  case (Cons p ps)
  show ?case by (simp add: Cons.IH c_sum_Cons c_add_assoc)
qed

lemma update_impedance_series_total:
  "total_impedance (update_impedance_series h c) =
     c_sum (map (\<lambda>q. get_impedance (h q)) (component_list c))"
  by (simp add: update_impedance_series_def foldl_c_add c_add_zero_left)

lemma update_impedance_series_list:
  "component_list (update_impedance_series h c) = component_list c"
  by (simp add: update_impedance_series_def)

lemma series_of_snoc: "series_of h (ps @ [p]) = add_component_in_series h p (series_of h ps)"
  by (simp add: series_of_def)

lemma series_of_list: "component_list (series_of h ps) = ps"
  by (induction ps rule: rev_induct)
     (simp_all add: series_of_def circuit_new_def add_component_in_series_def
        update_impedance_series_list)

lemma series_of_total:
  "total_impedance (series_of h ps) = c_sum (map (\<lambda>q. get_impedance (h q)) ps)"
proof (cases ps rule: rev_cases)
  case Nil
  then show ?thesis by (simp add: series_of_def circuit_new_def c_sum_Nil)
next
  case (snoc qs q)
  have "total_impedance (series_of h (qs @ [q])) =
          c_sum (map (\<lambda>q. get_impedance (h q)) (component_list (series_of h qs) @ [q]))"
    unfolding series_of_snoc add_component_in_series_def
    by (simp add: update_impedance_series_total)
  then show ?thesis using snoc by (simp add: series_of_list)
qed

lemma of_complex_add: "c_add (of_complex z) (of_complex w) = of_complex (z + w)"
  by (simp add: c_add_def of_complex_def)

lemma of_complex_zero: "of_complex 0 = c_of_double (Fin 0)"
  by (simp add: of_complex_def c_of_double_def)

lemma c_sum_of_complex: "c_sum (map (\<lambda>q. of_complex (z q)) ps) = of_complex (\<Sum>q\<leftarrow>ps. z q)"
  by (induction ps) (simp_all add: c_sum_Nil c_sum_Cons of_complex_add of_complex_zero)

lemma c_add_left_commute: "c_add z (c_add w u) = c_add w (c_add z u)"
  by (metis c_add_assoc c_add_commute)

lemma c_sum_mset: "mset zs = mset ws \<Longrightarrow> c_sum zs = c_sum ws"
proof -
  assume eq: "mset zs = mset ws"
  have "fold c_add (rev zs) = fold c_add (rev ws)"
    by (rule fold_multiset_equiv) (auto simp: fun_eq_iff c_add_left_commute eq)
  then show ?thesis by (simp add: c_sum_def foldr_conv_fold)
qed

lemma d_add_NaN_right: "d_add x NaN = NaN"
  by (cases x; simp)

lemma d_mul_NaN_right: "d_mul x NaN = NaN"
  by (cases x; simp)

lemma d_div_NaN_right: "d_div x NaN = NaN"
  by (cases x; simp)

lemma d_div_Fin: "n \<noteq> 0 \<Longrightarrow> d_div (Fin a) (Fin n) = Fin (a / n)"
  by simp

lemma div_ratio_of_complex:
  assumes "w \<noteq> 0"
  shows "div_ratio (Fin (Re z)) (Fin (Im z)) (Fin (Re w)) (Fin (Im w)) =
           (Fin (Re (z / w)), Fin (Im (z / w)))"
proof -
  define a b c d where "a = Re z" and "b = Im z" and "c = Re w" and "d = Im w"
  define n where "n = c * c + d * d"
  have cd: "c \<noteq> 0 \<or> d \<noteq> 0"
    using assms by (auto simp: c_def d_def complex_eq_iff)
  then have n: "n \<noteq> 0"
    by (auto simp: n_def add_nonneg_eq_0_iff)
  have re: "Re (z / w) = (a * c + b * d) / n"
    by (simp add: Re_divide n_def a_def b_def c_def d_def power2_eq_square)
  have im: "Im (z / w) = (b * c - a * d) / n"
    by (simp add: Im_divide n_def a_def b_def c_def d_def power2_eq_square)
  show ?thesis
  proof (cases "\<bar>c\<bar> < \<bar>d\<bar>")
    case True
    then have d0: "d \<noteq> 0" by auto
    have nd: "n / d \<noteq> 0" using n d0 by simp
    have less: "d_less (d_abs (Fin c)) (d_abs (Fin d))"
      using True by simp
    have ratio: "d_div (Fin c) (Fin d) = Fin (c / d)"
      using d0 by simp
    have "c * (c / d) + d = n / d"
      using d0 by (simp add: n_def field_simps)
    then have denom: "d_add (d_mul (Fin c) (Fin (c / d))) (Fin d) = Fin (n / d)"
      by (simp only: d_mul.simps d_add.simps)
    have "(a * (c / d) + b) / (n / d) = (a * c + b * d) / n"
      using d0 n by (simp add: field_simps)
    then have x: "d_div (d_add (d_mul (Fin a) (Fin (c / d))) (Fin b)) (Fin (n / d)) =
        Fin ((a * c + b * d) / n)"
      by (simp only: d_mul.simps d_add.simps d_div_Fin [OF nd])
    have "(b * (c / d) + - a) / (n / d) = (b * c - a * d) / n"
      using d0 n by (simp add: field_simps)
    then have y: "d_div (d_sub (d_mul (Fin b) (Fin (c / d))) (Fin a)) (Fin (n / d)) =
        Fin ((b * c - a * d) / n)"
      by (simp only: d_sub_def d_neg.simps d_mul.simps d_add.simps d_div_Fin [OF nd])
    show ?thesis
      unfolding a_def [symmetric] b_def [symmetric] c_def [symmetric] d_def [symmetric] re im
      by (simp only: div_ratio_def less if_True Let_def ratio denom x y)
  next
    case False
    then have c0: "c \<noteq> 0" using cd by auto
    have nc: "n / c \<noteq> 0" using n c0 by simp
    have less: "\<not> d_less (d_abs (Fin c)) (d_abs (Fin d))"
      using False by simp
    have ratio: "d_div (Fin d) (Fin c) = Fin (d / c)"
      using c0 by simp
    have "d * (d / c) + c = n / c"
      using c0 by (simp add: n_def field_simps)
    then have denom: "d_add (d_mul (Fin d) (Fin (d / c))) (Fin c) = Fin (n / c)"
      by (simp only: d_mul.simps d_add.simps)
    have "(b * (d / c) + a) / (n / c) = (a * c + b * d) / n"
      using c0 n by (simp add: field_simps)
    then have x: "d_div (d_add (d_mul (Fin b) (Fin (d / c))) (Fin a)) (Fin (n / c)) =
        Fin ((a * c + b * d) / n)"
      by (simp only: d_mul.simps d_add.simps d_div_Fin [OF nc])
    have "(b + - (a * (d / c))) / (n / c) = (b * c - a * d) / n"
      using c0 n by (simp add: field_simps)
    then have y: "d_div (d_sub (Fin b) (d_mul (Fin a) (Fin (d / c)))) (Fin (n / c)) =
        Fin ((b * c - a * d) / n)"
      by (simp only: d_sub_def d_neg.simps d_mul.simps d_add.simps d_div_Fin [OF nc])
    show ?thesis
      unfolding a_def [symmetric] b_def [symmetric] c_def [symmetric] d_def [symmetric] re im
      by (simp only: div_ratio_def less if_False Let_def ratio denom x y)
  qed
qed

lemma c_div_of_complex:
  assumes "w \<noteq> 0"
  shows "c_div (of_complex z) (of_complex w) = of_complex (z / w)"
  by (simp add: c_div_def divdc3_def Let_def of_complex_def div_ratio_of_complex [OF assms])

lemma one_of_complex: "c_of_double (Fin 1) = of_complex 1"
  by (simp add: c_of_double_def of_complex_def)

lemma c_recip_of_complex:
  "z \<noteq> 0 \<Longrightarrow> c_div (c_of_double (Fin 1)) (of_complex z) = of_complex (1 / z)"
  unfolding one_of_complex by (rule c_div_of_complex)

lemma c_div_zero: "c_div (c_of_double (Fin 1)) (c_of_double (Fin 0)) = (PInf, NaN)"
  by (simp add: c_div_def divdc3_def div_ratio_def Let_def c_of_double_def d_sub_def
        signed_inf_def)


lemma c_div_minus_inf_j: "c_div (c_of_double (Fin 1)) (Fin 0, MInf) = c_of_double (Fin 0)"
  by (simp add: c_div_def divdc3_def div_ratio_def Let_def c_of_double_def d_sub_def
        signed_inf_def)

lemma c_div_nan_nan: "c_div (c_of_double (Fin 1)) (NaN, NaN) = (NaN, NaN)"
  by (simp add: c_div_def divdc3_def div_ratio_def Let_def c_of_double_def d_sub_def
        signed_inf_def)

lemma update_impedance_parallel_total:
  "total_impedance (update_impedance_parallel h c) =
     c_div (c_of_double (Fin 1))
       (c_sum (map (\<lambda>q. c_div (c_of_double (Fin 1)) (get_impedance (h q))) (component_list c)))"
  by (simp add: update_impedance_parallel_def foldl_c_add c_add_zero_left)






lemma pi_d_pos: "0 < pi_d"
  by (simp add: pi_d_def)

lemma d_mul_NaN_left: "d_mul NaN x = NaN"
  by simp

lemma diode_impedance_NaN: "diode_impedance f c r is = (NaN, NaN)"
  by (simp add: diode_impedance_def Let_def d_add_NaN_right d_mul_NaN_right d_div_NaN_right)

lemma fold_set_frequency_transistor:
  "fold set_frequency fs (transistor cc bc ec cev bev) = transistor cc bc ec cev bev"
  by (induction fs) (simp_all add: transistor_def)

lemma circuit_set_frequency_parallel:
  "circuit_set_frequency h f c = update_impedance_parallel h (c\<lparr>circuit_frequency := f\<rparr>)"
  by (simp add: circuit_set_frequency_def update_impedance_series_def
        update_impedance_parallel_def)








section \<open>Series combination\<close>

text \<open>
  C2.  After \<^verbatim>\<open>add_component_in_series\<close> the total impedance is the sum of the impedances
  that the store holds for the members, the new one included.  For a fresh circuit into
  which the components at \<open>ps\<close> are registered in series this is the sum over \<open>ps\<close>; where the
  impedances are finite it is the exact complex sum; and registering the same components
  in another order gives the same total.
\<close>

theorem series_total_is_sum:
  "get_circuit_impedance (add_component_in_series h p c) =
     c_sum (map (\<lambda>q. get_impedance (h q)) (component_list c @ [p]))
   \<and> component_list (series_of h ps) = ps
   \<and> get_circuit_impedance (series_of h ps) = c_sum (map (\<lambda>q. get_impedance (h q)) ps)
   \<and> ((\<forall>q \<in> set ps. get_impedance (h q) = of_complex (z q)) \<longrightarrow>
        get_circuit_impedance (series_of h ps) = of_complex (\<Sum>q\<leftarrow>ps. z q))
   \<and> (mset qs = mset ps \<longrightarrow>
        get_circuit_impedance (series_of h qs) = get_circuit_impedance (series_of h ps))"
proof (intro conjI impI)
  show "get_circuit_impedance (add_component_in_series h p c) =
     c_sum (map (\<lambda>q. get_impedance (h q)) (component_list c @ [p]))"
    by (simp add: get_circuit_impedance_def add_component_in_series_def
          update_impedance_series_total)
  show "component_list (series_of h ps) = ps" by (rule series_of_list)
  show "get_circuit_impedance (series_of h ps) = c_sum (map (\<lambda>q. get_impedance (h q)) ps)"
    by (simp add: get_circuit_impedance_def series_of_total)
  show "get_circuit_impedance (series_of h ps) = of_complex (\<Sum>q\<leftarrow>ps. z q)"
    if "\<forall>q \<in> set ps. get_impedance (h q) = of_complex (z q)"
  proof -
    have meq: "map (\<lambda>q. get_impedance (h q)) ps = map (\<lambda>q. of_complex (z q)) ps"
      using that by simp
    show ?thesis
      by (simp only: get_circuit_impedance_def series_of_total meq c_sum_of_complex)
  qed
  show "get_circuit_impedance (series_of h qs) = get_circuit_impedance (series_of h ps)"
    if "mset qs = mset ps"
  proof -
    have "mset (map (\<lambda>q. get_impedance (h q)) qs) = mset (map (\<lambda>q. get_impedance (h q)) ps)"
      using that by (metis mset_map)
    then have "c_sum (map (\<lambda>q. get_impedance (h q)) qs) = c_sum (map (\<lambda>q. get_impedance (h q)) ps)"
      by (rule c_sum_mset)
    then show ?thesis
      by (simp only: get_circuit_impedance_def series_of_total)
  qed
qed

theorem series_total_is_sum_witness:
  "mset [1, 0] = mset [0, 1 :: nat]
   \<and> get_circuit_impedance (series_of (resistor_inductor 100 1 50) [0, 1]) =
       of_complex (Complex 100 (100 * pi_d))
   \<and> get_circuit_impedance (series_of (resistor_inductor 100 1 50) [1, 0]) =
       get_circuit_impedance (series_of (resistor_inductor 100 1 50) [0, 1])"
proof -
  let ?h = "resistor_inductor 100 1 50"
  let ?z = "\<lambda>q::nat. if q = 0 then Complex 100 0 else Complex 0 (100 * pi_d)"
  have m: "mset [1, 0] = mset [0, 1 :: nat]" by simp
  have f: "\<forall>q \<in> set [0, 1]. get_impedance (?h q) = of_complex (?z q)"
    by (simp add: resistor_inductor_def get_impedance_def resistor_def inductor_def
          c_of_double_def of_complex_def)
  have s: "(\<Sum>q\<leftarrow>[0, 1]. ?z q) = Complex 100 (100 * pi_d)"
    by (simp add: complex_eq_iff)
  note t = series_total_is_sum [of ?h 0 circuit_new "[0, 1]" ?z "[1, 0]"]
  have a: "get_circuit_impedance (series_of ?h [0, 1]) = of_complex (\<Sum>q\<leftarrow>[0, 1]. ?z q)"
    using t f by blast
  have b: "get_circuit_impedance (series_of ?h [1, 0]) =
           get_circuit_impedance (series_of ?h [0, 1])"
    using t m by blast
  show ?thesis using m a b unfolding s by (intro conjI)
qed

section \<open>Parallel combination\<close>







section \<open>Changing the frequency of a circuit\<close>

text \<open>
  C1.  The claim: for a circuit whose members were all registered with
  \<^verbatim>\<open>add_component_in_series\<close>, the total impedance after \<^verbatim>\<open>circuit::set_frequency\<close> is the
  series sum of the members' impedances.  The code runs \<^verbatim>\<open>update_impedance_series\<close> and then
  \<^verbatim>\<open>update_impedance_parallel\<close>, so the total it leaves is always the parallel combination:
  two resistors of 100 Ohm registered in series have the total 200 Ohm before
  \<^verbatim>\<open>set_frequency\<close> and 50 Ohm after it.
\<close>

theorem series_circuit_set_frequency_uses_parallel_rule:
  "circuit_set_frequency h f c = update_impedance_parallel h (c\<lparr>circuit_frequency := f\<rparr>)
   \<and> get_circuit_impedance (series_of (resistors 100) [0, 1]) = of_complex 200
   \<and> get_circuit_impedance
        (circuit_set_frequency (resistors 100) (Fin 50) (series_of (resistors 100) [0, 1])) =
       of_complex 50"
proof (intro conjI)
  let ?h = "resistors 100"
  have imp: "get_impedance (?h q) = of_complex 100" for q
    by (simp add: resistors_def get_impedance_def resistor_def c_of_double_def of_complex_def)
  show "circuit_set_frequency h f c = update_impedance_parallel h (c\<lparr>circuit_frequency := f\<rparr>)"
    by (rule circuit_set_frequency_parallel)
  have "total_impedance (series_of ?h [0, 1]) =
          c_sum (map (\<lambda>q. of_complex 100) [0, 1::nat])"
    unfolding series_of_total by (simp add: imp)
  then show "get_circuit_impedance (series_of ?h [0, 1]) = of_complex 200"
    by (simp add: get_circuit_impedance_def c_sum_Cons c_sum_Nil of_complex_add
          of_complex_zero [symmetric])
  have "total_impedance (update_impedance_parallel ?h (series_of ?h [0, 1]\<lparr>circuit_frequency := Fin 50\<rparr>))
      = c_div (c_of_double (Fin 1)) (c_sum (map (\<lambda>q. of_complex (1 / 100)) [0, 1::nat]))"
    unfolding update_impedance_parallel_total
    by (simp add: series_of_list imp c_recip_of_complex)
  also have "\<dots> = c_div (c_of_double (Fin 1)) (of_complex (1 / 50))"
    by (simp add: c_sum_Cons c_sum_Nil of_complex_add of_complex_zero [symmetric])
  also have "\<dots> = of_complex 50"
    by (simp add: c_recip_of_complex)
  finally show "get_circuit_impedance
        (circuit_set_frequency ?h (Fin 50) (series_of ?h [0, 1])) = of_complex 50"
    by (simp add: get_circuit_impedance_def circuit_set_frequency_parallel)
qed

text \<open>
  C8.  The claim: a circuit with no component has the total impedance \<open>0 + 0j\<close> and the
  magnitude 0, also after \<^verbatim>\<open>set_frequency\<close>.  That holds for the fresh circuit;
  \<^verbatim>\<open>set_frequency\<close> on it ends in \<^verbatim>\<open>update_impedance_parallel\<close>, which divides 1 by the empty
  sum \<open>0 + 0j\<close> and leaves the total impedance \<open>\<infinity> + NaN j\<close> and the magnitude \<open>\<infinity>\<close>.
\<close>

theorem empty_circuit_after_set_frequency:
  "get_circuit_impedance circuit_new = c_of_double (Fin 0)
   \<and> get_total_impedance_magntiude circuit_new = Fin 0
   \<and> get_circuit_impedance (circuit_set_frequency h f circuit_new) = (PInf, NaN)
   \<and> get_total_impedance_magntiude (circuit_set_frequency h f circuit_new) = PInf
   \<and> get_circuit_impedance (circuit_set_frequency h f circuit_new) \<noteq> c_of_double (Fin 0)
   \<and> get_total_impedance_magntiude (circuit_set_frequency h f circuit_new) \<noteq> Fin 0"
proof (intro conjI)
  show "get_circuit_impedance circuit_new = c_of_double (Fin 0)"
    by (simp add: get_circuit_impedance_def circuit_new_def)
  show "get_total_impedance_magntiude circuit_new = Fin 0"
    by (simp add: get_total_impedance_magntiude_def circuit_new_def c_abs_def c_of_double_def)
  have t: "total_impedance (circuit_set_frequency h f circuit_new) = (PInf, NaN)"
    by (simp add: circuit_new_def circuit_set_frequency_def update_impedance_series_def
          update_impedance_parallel_def c_div_zero)
  show "get_circuit_impedance (circuit_set_frequency h f circuit_new) = (PInf, NaN)"
    by (simp add: get_circuit_impedance_def t)
  show "get_total_impedance_magntiude (circuit_set_frequency h f circuit_new) = PInf"
    by (simp add: get_total_impedance_magntiude_def t c_abs_def)
  show "get_circuit_impedance (circuit_set_frequency h f circuit_new) \<noteq> c_of_double (Fin 0)"
    by (simp add: get_circuit_impedance_def t c_of_double_def)
  show "get_total_impedance_magntiude (circuit_set_frequency h f circuit_new) \<noteq> Fin 0"
    by (simp add: get_total_impedance_magntiude_def t c_abs_def)
qed

section \<open>Component variants\<close>

text \<open>
  C5.  A capacitor of capacitance \<open>C > 0\<close> at a frequency \<open>f > 0\<close> has the impedance
  \<open>0 - j / (2 \<pi> f C)\<close>, the magnitude \<open>1 / (2 \<pi> f C)\<close> and the phase \<open>- \<pi> / 2\<close>, where \<open>\<pi>\<close> is
  the program's constant \<^verbatim>\<open>pi\<close>.
\<close>

theorem capacitor_magnitude_and_phase:
  "0 < C \<and> 0 < f \<longrightarrow>
     get_impedance (set_frequency (Fin f) (capacitor (Fin C))) =
       (Fin 0, Fin (- (1 / (2 * pi_d * f * C))))
   \<and> get_impedance_magnitude (set_frequency (Fin f) (capacitor (Fin C))) =
       Fin (1 / (2 * pi_d * f * C))
   \<and> get_phase_difference (set_frequency (Fin f) (capacitor (Fin C))) = Fin (- pi_d / 2)"
proof (intro impI)
  assume a: "0 < C \<and> 0 < f"
  then have pos: "0 < 2 * pi_d * f * C"
    using pi_d_pos by simp
  have nz: "pi_d \<noteq> 0" "f \<noteq> 0" "C \<noteq> 0"
    using a pi_d_pos by simp_all
  have imp: "get_impedance (set_frequency (Fin f) (capacitor (Fin C))) =
       (Fin 0, Fin (- (1 / (2 * pi_d * f * C))))"
    using nz by (simp add: get_impedance_def capacitor_def)
  have "sqrt (0 * 0 + - (1 / (2 * pi_d * f * C)) * - (1 / (2 * pi_d * f * C))) =
          \<bar>- (1 / (2 * pi_d * f * C))\<bar>"
    by (simp only: mult_zero_left add_0_left real_sqrt_abs2)
  also have "\<dots> = 1 / (2 * pi_d * f * C)"
    using pos by (simp only: abs_minus_cancel abs_of_pos zero_less_divide_1_iff)
  finally have mag: "get_impedance_magnitude (set_frequency (Fin f) (capacitor (Fin C))) =
       Fin (1 / (2 * pi_d * f * C))"
    using imp by (simp only: get_impedance_magnitude_def get_impedance_def c_abs_def
        fst_conv snd_conv d_hypot.simps)
  have ph: "get_phase_difference (set_frequency (Fin f) (capacitor (Fin C))) = Fin (- pi_d / 2)"
    by (simp add: capacitor_def)
  show "get_impedance (set_frequency (Fin f) (capacitor (Fin C))) =
       (Fin 0, Fin (- (1 / (2 * pi_d * f * C))))
   \<and> get_impedance_magnitude (set_frequency (Fin f) (capacitor (Fin C))) =
       Fin (1 / (2 * pi_d * f * C))
   \<and> get_phase_difference (set_frequency (Fin f) (capacitor (Fin C))) = Fin (- pi_d / 2)"
    using imp mag ph by (intro conjI)
qed

theorem capacitor_magnitude_and_phase_witness:
  "get_impedance_magnitude (set_frequency (Fin 1000) (capacitor (Fin (1 / 1000000)))) =
     Fin (1 / (2 * pi_d * 1000 * (1 / 1000000)))
   \<and> get_phase_difference (set_frequency (Fin 1000) (capacitor (Fin (1 / 1000000)))) =
     Fin (- pi_d / 2)"
proof -
  have "(0::real) < 1 / 1000000 \<and> (0::real) < 1000" by simp
  with capacitor_magnitude_and_phase [of "1 / 1000000" 1000] show ?thesis by blast
qed

text \<open>
  C6.  \<^verbatim>\<open>diode::set_frequency\<close> computes \<^verbatim>\<open>j\<close> as the real square root of \<open>-1\<close>, which is
  NaN; for all parameters and every frequency the stored impedance then has NaN real and
  imaginary parts, and the magnitude and the phase are NaN.
\<close>

theorem diode_impedance_is_nan:
  "d_sqrt (Fin (- 1)) = NaN
   \<and> get_impedance (set_frequency f (diode c r is)) = (NaN, NaN)
   \<and> get_impedance_magnitude (set_frequency f (diode c r is)) = NaN
   \<and> get_phase_difference (set_frequency f (diode c r is)) = NaN"
  by (simp add: diode_def get_impedance_def get_impedance_magnitude_def c_abs_def c_arg_def
        diode_impedance_NaN)

text \<open>
  C7.  The claim: a freshly constructed inductor has the impedance \<open>0 + 0j\<close>, its formula
  \<open>j 2 \<pi> f L\<close> at the default frequency 0.  The constructor leaves the frequency out of the
  product: the impedance of a fresh inductor of inductance \<open>L\<close> is \<open>j 2 \<pi> L\<close> while its
  frequency is 0, which for \<open>L = 1\<close> is not zero, whereas \<^verbatim>\<open>set_frequency (0)\<close> on the same
  inductor gives zero.
\<close>

theorem inductor_constructor_impedance:
  "get_impedance (inductor (Fin L)) = (Fin 0, Fin (2 * pi_d * L))
   \<and> get_frequency (inductor (Fin L)) = Fin 0
   \<and> get_impedance (inductor (Fin 1)) \<noteq> c_of_double (Fin 0)
   \<and> get_impedance (set_frequency (Fin 0) (inductor (Fin 1))) = c_of_double (Fin 0)"
  using pi_d_pos by (simp add: inductor_def get_impedance_def c_of_double_def)

text \<open>
  C9.  For a component in any state (so for each of the five variants as constructed),
  setting the frequency \<open>f1\<close> and then \<open>f2\<close> gives the same component, and so the same
  impedance, as setting \<open>f2\<close> at once.
\<close>

theorem set_frequency_twice:
  "set_frequency f2 (set_frequency f1 c) = set_frequency f2 c
   \<and> get_impedance (set_frequency f2 (set_frequency f1 c)) = get_impedance (set_frequency f2 c)"
  by (cases "derived c") simp_all

text \<open>
  C10.  \<^verbatim>\<open>transistor::set_frequency\<close> changes nothing: after any sequence \<open>fs\<close> of
  \<^verbatim>\<open>set_frequency\<close> calls the transistor is as constructed, its impedance is the real value
  \<^verbatim>\<open>collector_emitter_voltage / collector_current\<close>, its phase is 0 and its reported
  frequency is 0.
\<close>

theorem transistor_set_frequency_noop:
  "set_frequency f (transistor cc bc ec cev bev) = transistor cc bc ec cev bev
   \<and> fold set_frequency fs (transistor cc bc ec cev bev) = transistor cc bc ec cev bev
   \<and> get_impedance (fold set_frequency fs (transistor cc bc ec cev bev)) =
       c_of_double (d_div cev cc)
   \<and> get_phase_difference (fold set_frequency fs (transistor cc bc ec cev bev)) = Fin 0
   \<and> get_frequency (fold set_frequency fs (transistor cc bc ec cev bev)) = Fin 0"
  unfolding fold_set_frequency_transistor
  by (simp add: transistor_def get_impedance_def c_of_double_def)

end
